theory Spec2Isabelle
  imports Complex_Main "HOL-Library.Multiset" "HOL-Library.AList" "HOL-Library.Log_Nat"
    "HOL-Library.Char_ord" "HOL-Library.List_Lexorder"
begin

section \<open>Image-cache reclamation of the NetApp NFS driver\<close>

text \<open>
  The definitions below embed the cache-cleaning methods of class \<open>NetAppNfsDriver\<close>
  (file \<open>cinder/volume/drivers/netapp/dataontap/nfs_base.py\<close>). A method \<open>_m\<close> of the
  source is the constant \<open>m\<close> here, since an Isabelle name cannot start with an underscore.
\<close>

subsection \<open>Exceptions, return values and the log\<close>

text \<open>
  A raised Python exception is a value. The handlers of the source all read
  \<open>except Exception\<close>, so the one distinction that matters is whether the raised object is
  an instance of class \<open>Exception\<close> (constructor \<open>Exception\<close>, with the name of its class)
  or derives from \<open>BaseException\<close> only, as \<open>SystemExit\<close>, \<open>KeyboardInterrupt\<close> and
  \<open>GreenletExit\<close> do (constructor \<open>BaseException\<close>).
\<close>

datatype exn = Exception string | BaseException string

datatype pyval = PyNone | PyBool bool | PyStr string | PyInt int

text \<open>
  An entry of the candidate list is the tuple \<open>(f[0], f[1])\<close> of the source: the file's
  name and the size of the file as \<open>_shortlist_del_eligible_files\<close> reports it, an
  integer or the decimal text of one. \<open>_delete_files_till_bytes_free\<close> sorts by
  \<open>f[1]\<close> as it is and converts it with \<open>int(f[1])\<close> only where it subtracts it from
  \<open>bytes_to_free\<close>. Every such tuple is truthy, so the test \<open>if f\<close> of the loop always
  passes. Strings are strings of 8-bit characters.
\<close>

type_synonym cache_file = "string \<times> pyval"

datatype level = DEBUG | INFO | WARNING

datatype log_arg = Str string | Num int | Files "cache_file list" | Exn exn

text \<open>A record of \<open>LOG\<close>: the level, the message template and its arguments.\<close>

type_synonym log_rec = "level \<times> string \<times> log_arg list"

subsection \<open>The driver object and its collaborators\<close>

text \<open>
  The fields of \<open>self\<close> that the cache cleaning reads and writes. \<open>cleaning\<close> and
  \<open>mounted_shares\<close> are read with \<open>getattr(self, ..., default)\<close>, so \<open>None\<close> stands for
  an attribute that was never set. \<open>passes_running\<close> counts the timer threads started by
  \<open>_spawn_clean_cache_job\<close> whose \<open>_clean_image_cache\<close> has not returned yet. \<open>world\<close>
  is everything outside the process: the shares' file systems and the storage backend.
\<close>

record 'w driver =
  cleaning :: "bool option"
  mounted_shares :: "string list option"
  passes_running :: nat
  log :: "log_rec list"
  world :: 'w

text \<open>
  \<open>self.configuration\<close>. Reading an option that is not registered raises, so every
  option is either the exception of the read or its value.
\<close>

record conf =
  thres_avl_size_perc_start :: "exn + int"
  thres_avl_size_perc_stop :: "exn + int"
  expiry_thres_minutes :: "exn + int"

text \<open>
  The methods that the source calls and does not define: \<open>self._execute\<close> (runs a shell
  command, returns its output pair or raises), \<open>zapi_client.get_flexvol_capacity\<close> (the
  pair of \<open>size-total\<close> and \<open>size-available\<close>), \<open>_get_mount_point_for_share\<close> of the
  parent class, \<open>_shortlist_del_eligible_files\<close> (it raises \<open>NotImplementedError\<close> in
  this class and is overridden by the subclasses), and the flag \<open>_execute_as_root\<close>.
\<close>

record 'w env =
  execute :: "string list \<Rightarrow> bool \<Rightarrow> 'w \<Rightarrow> (exn + string \<times> string) \<times> 'w"
  get_flexvol_capacity :: "string \<Rightarrow> 'w \<Rightarrow> (exn + int \<times> int) \<times> 'w"
  get_mount_point_for_share :: "string \<Rightarrow> exn + string"
  shortlist_del_eligible_files ::
    "string \<Rightarrow> string list \<Rightarrow> 'w \<Rightarrow> (exn + cache_file list) \<times> 'w"
  execute_as_root :: bool

definition LOG :: "level \<Rightarrow> string \<Rightarrow> log_arg list \<Rightarrow> 'w driver \<Rightarrow> 'w driver" where
  "LOG lv msg args s = s\<lparr>log := log s @ [(lv, msg, args)]\<rparr>"

subsection \<open>Deleting cache files\<close>

text \<open>
  \<open>_delete_file_at_path\<close>: runs \<open>rm -f path\<close>; an \<open>Exception\<close> of the command is logged
  and turned into the result \<open>False\<close>.
\<close>

definition delete_file_at_path ::
  "'w env \<Rightarrow> string \<Rightarrow> 'w driver \<Rightarrow> (exn + bool) \<times> 'w driver" where
  "delete_file_at_path e path s =
     (let s1 = LOG DEBUG ''Deleting file at path %s'' [Str path] s in
      case execute e [''rm'', ''-f'', path] (execute_as_root e) (world s1) of
        (Inr out, w) \<Rightarrow> (Inr True, s1\<lparr>world := w\<rparr>)
      | (Inl (Exception n), w) \<Rightarrow>
          (Inr False,
           LOG WARNING ''Exception during deleting %s'' [Exn (Exception n)] (s1\<lparr>world := w\<rparr>))
      | (Inl (BaseException n), w) \<Rightarrow> (Inl (BaseException n), s1\<lparr>world := w\<rparr>))"

text \<open>
  Python's \<open>int(v)\<close>. An integer is itself and a boolean is 0 or 1; \<open>None\<close> raises
  \<open>TypeError\<close>; a string is read as a decimal numeral: white space at both ends is
  dropped, one sign may lead, the digits may be grouped by single underscores, and
  anything else raises \<open>ValueError\<close>.
\<close>

definition is_space :: "char \<Rightarrow> bool" where
  "is_space c \<longleftrightarrow> (of_char c :: nat) \<in> set [9, 10, 11, 12, 13, 32, 133, 160]"

definition is_digit :: "char \<Rightarrow> bool" where
  "is_digit c \<longleftrightarrow> 48 \<le> (of_char c :: nat) \<and> (of_char c :: nat) \<le> 57"

fun digits_val :: "string \<Rightarrow> int \<Rightarrow> int option" where
  "digits_val [] acc = Some acc"
| "digits_val (c # cs) acc =
     (if is_digit c then digits_val cs (10 * acc + (int (of_char c) - 48))
      else if c = CHR ''_'' then
        (case cs of
           [] \<Rightarrow> None
         | d # ds \<Rightarrow> (if is_digit d then digits_val cs acc else None))
      else None)"

definition int_digits :: "string \<Rightarrow> int option" where
  "int_digits t =
     (case t of
        [] \<Rightarrow> None
      | c # cs \<Rightarrow> (if is_digit c then digits_val t 0 else None))"

definition int_str :: "string \<Rightarrow> int option" where
  "int_str s =
     (let t = rev (dropWhile is_space (rev (dropWhile is_space s))) in
      case t of
        [] \<Rightarrow> None
      | c # cs \<Rightarrow>
          (if c = CHR ''-'' then map_option uminus (int_digits cs)
           else if c = CHR ''+'' then int_digits cs
           else int_digits t))"

definition int_pyval :: "pyval \<Rightarrow> exn + int" where
  "int_pyval v =
     (case v of
        PyInt i \<Rightarrow> Inr i
      | PyBool b \<Rightarrow> Inr (if b then 1 else 0)
      | PyNone \<Rightarrow> Inl (Exception ''TypeError'')
      | PyStr s \<Rightarrow> (case int_str s of
                      None \<Rightarrow> Inl (Exception ''ValueError'')
                    | Some i \<Rightarrow> Inr i))"

text \<open>
  The loop \<open>for f in sorted_files\<close> of \<open>_delete_files_till_bytes_free\<close>. The integer of
  the result is the value of the local variable \<open>bytes_to_free\<close> when the loop is left.
  After a delete that returned \<open>True\<close> the statement \<open>bytes_to_free -= int(f[1])\<close>
  runs, and what the conversion raises leaves the loop. The lock
  \<open>utils.synchronized(f[0], external=True)\<close> around each delete orders this delete
  against other threads and processes; one thread alone runs through it.
\<close>

fun delete_loop ::
  "'w env \<Rightarrow> string \<Rightarrow> cache_file list \<Rightarrow> int \<Rightarrow> 'w driver \<Rightarrow> (exn + int) \<times> 'w driver" where
  "delete_loop e mount_fs [] bytes_to_free s = (Inr bytes_to_free, s)"
| "delete_loop e mount_fs (f # fs) bytes_to_free s =
     (let file_path = mount_fs @ ''/'' @ fst f;
          s1 = LOG DEBUG ''Delete file path %s'' [Str file_path] s in
      case delete_file_at_path e file_path s1 of
        (Inl x, s2) \<Rightarrow> (Inl x, s2)
      | (Inr True, s2) \<Rightarrow>
          (case int_pyval (snd f) of
             Inl x \<Rightarrow> (Inl x, s2)
           | Inr n \<Rightarrow>
               (if bytes_to_free - n \<le> 0 then (Inr (bytes_to_free - n), s2)
                else delete_loop e mount_fs fs (bytes_to_free - n) s2))
      | (Inr False, s2) \<Rightarrow> delete_loop e mount_fs fs bytes_to_free s2)"

text \<open>
  \<open>sorted(file_list, key=lambda x: x[1], reverse=True)\<close>. Python 3 compares the keys
  as they are: integers, booleans among them, by their value, strings character by
  character by their codes, and it raises \<open>TypeError\<close> when it has to compare an
  integer with a string or \<open>None\<close> with anything, which every sort of two or more
  entries of such kinds has to. The sort is stable, and with \<open>reverse=True\<close> it
  reverses the list, sorts it and reverses the result, so that entries with equal keys
  stay in listing order.
\<close>

definition is_num :: "pyval \<Rightarrow> bool" where
  "is_num v = (case v of PyInt i \<Rightarrow> True | PyBool b \<Rightarrow> True | _ \<Rightarrow> False)"

definition num_val :: "pyval \<Rightarrow> int" where
  "num_val v = (case v of PyInt i \<Rightarrow> i | PyBool b \<Rightarrow> (if b then 1 else 0) | _ \<Rightarrow> 0)"

definition is_str :: "pyval \<Rightarrow> bool" where
  "is_str v = (case v of PyStr t \<Rightarrow> True | _ \<Rightarrow> False)"

definition str_val :: "pyval \<Rightarrow> string" where
  "str_val v = (case v of PyStr t \<Rightarrow> t | _ \<Rightarrow> [])"

definition sorted_files :: "cache_file list \<Rightarrow> exn + cache_file list" where
  "sorted_files file_list =
     (if length file_list \<le> 1 then Inr file_list
      else if list_all (\<lambda>x. is_num (snd x)) file_list
        then Inr (rev (sort_key (\<lambda>x. num_val (snd x)) (rev file_list)))
      else if list_all (\<lambda>x. is_str (snd x)) file_list
        then Inr (rev (sort_key (\<lambda>x. str_val (snd x)) (rev file_list)))
      else Inl (Exception ''TypeError''))"

definition delete_files_till_bytes_free ::
  "'w env \<Rightarrow> cache_file list \<Rightarrow> string \<Rightarrow> int \<Rightarrow> 'w driver \<Rightarrow> (exn + unit) \<times> 'w driver" where
  "delete_files_till_bytes_free e file_list share bytes_to_free s =
     (let s1 = LOG DEBUG ''Bytes to free %s'' [Num bytes_to_free] s in
      if file_list \<noteq> [] \<and> bytes_to_free > 0 then
        (case sorted_files file_list of
           Inl x \<Rightarrow> (Inl x, s1)
         | Inr sorted_list \<Rightarrow>
             (case get_mount_point_for_share e share of
                Inl x \<Rightarrow> (Inl x, s1)
              | Inr mount_fs \<Rightarrow>
                  (case delete_loop e mount_fs sorted_list bytes_to_free s1 of
                     (Inl x, s2) \<Rightarrow> (Inl x, s2)
                   | (Inr b, s2) \<Rightarrow> (Inr (), s2))))
      else (Inr (), s1))"

text \<open>
  The delete attempts recorded in a log, in order: the paths of the entries written by
  \<open>LOG.debug('Delete file path %s', file_path)\<close>, one before each attempt.
\<close>

fun delete_attempts :: "log_rec list \<Rightarrow> string list" where
  "delete_attempts [] = []"
| "delete_attempts ((lv, msg, args) # rs) =
     (if lv = DEBUG \<and> msg = ''Delete file path %s''
      then (case args of [Str p] \<Rightarrow> p # delete_attempts rs | _ \<Rightarrow> delete_attempts rs)
      else delete_attempts rs)"


subsection \<open>Scanning a share for old cache files\<close>

text \<open>Python's \<open>str\<close> of an integer, for the argument \<open>'+%s' % threshold_minutes\<close>.\<close>

fun str_nat :: "nat \<Rightarrow> string" where
  "str_nat n =
     (if n < 10 then [char_of (48 + n)] else str_nat (n div 10) @ [char_of (48 + n mod 10)])"

definition str_int :: "int \<Rightarrow> string" where
  "str_int i = (if i < 0 then CHR ''-'' # str_nat (nat (- i)) else str_nat (nat i))"

text \<open>\<open>s.strip(c)\<close> and \<open>s.split(c)\<close> for a one-character separator.\<close>

definition strip_chr :: "char \<Rightarrow> string \<Rightarrow> string" where
  "strip_chr c s = rev (dropWhile (\<lambda>x. x = c) (rev (dropWhile (\<lambda>x. x = c) s)))"

fun split_chr :: "char \<Rightarrow> string \<Rightarrow> string list" where
  "split_chr c [] = [[]]"
| "split_chr c (x # xs) =
     (if x = c then [] # split_chr c xs
      else (case split_chr c xs of
              [] \<Rightarrow> [[x]]
            | y # ys \<Rightarrow> (x # y) # ys))"

text \<open>
  \<open>_find_old_cache_files\<close>. The call of \<open>self._execute\<close> stands in no \<open>try\<close>: what
  the \<open>find\<close> command raises leaves the method.
\<close>

definition find_old_cache_files ::
  "'w env \<Rightarrow> conf \<Rightarrow> string \<Rightarrow> 'w driver \<Rightarrow> (exn + cache_file list) \<times> 'w driver" where
  "find_old_cache_files e c share s =
     (case get_mount_point_for_share e share of
        Inl x \<Rightarrow> (Inl x, s)
      | Inr mount_fs \<Rightarrow>
          (case expiry_thres_minutes c of
             Inl x \<Rightarrow> (Inl x, s)
           | Inr threshold_minutes \<Rightarrow>
               (let cmd = [''find'', mount_fs, ''-maxdepth'', ''1'', ''-name'', ''img-cache*'',
                           ''-amin'', ''+'' @ str_int threshold_minutes] in
                case execute e cmd (execute_as_root e) (world s) of
                  (Inl x, w) \<Rightarrow> (Inl x, s\<lparr>world := w\<rparr>)
                | (Inr (res, err), w) \<Rightarrow>
                    (if res \<noteq> [] then
                       (let old_file_paths = split_chr (CHR 0x0A) (strip_chr (CHR 0x0A) res);
                            mount_fs_len = length mount_fs;
                            old_files = map (drop (mount_fs_len + 1)) old_file_paths in
                        case shortlist_del_eligible_files e share old_files w of
                          (Inl x, w') \<Rightarrow> (Inl x, s\<lparr>world := w'\<rparr>)
                        | (Inr eligible_files, w') \<Rightarrow> (Inr eligible_files, s\<lparr>world := w'\<rparr>))
                     else (Inr [], s\<lparr>world := w\<rparr>)))))"

subsection \<open>The reclamation pass\<close>

text \<open>
  \<open>_get_capacity_info\<close>: \<open>nfs_share.rsplit(':', 1)[1]\<close> is the text after the last
  colon, and an \<open>IndexError\<close> when the share has no colon.
\<close>

definition get_capacity_info ::
  "'w env \<Rightarrow> string \<Rightarrow> 'w driver \<Rightarrow> (exn + int \<times> int) \<times> 'w driver" where
  "get_capacity_info e nfs_share s =
     (if CHR '':'' \<notin> set nfs_share then (Inl (Exception ''IndexError''), s)
      else
        (let export_path = rev (takeWhile (\<lambda>x. x \<noteq> CHR '':'') (rev nfs_share)) in
         case get_flexvol_capacity e export_path (world s) of
           (Inl x, w) \<Rightarrow> (Inl x, s\<lparr>world := w\<rparr>)
         | (Inr (size_total, size_available), w) \<Rightarrow>
             (Inr (size_total, size_available), s\<lparr>world := w\<rparr>)))"

text \<open>
  Python's \<open>float\<close> is the IEEE 754 double. The result of a conversion, a division or
  a multiplication is the exact value rounded to 53 significant bits, a tie going to
  the even significand. \<open>binade x\<close> is the exponent of the power of two at or below
  \<open>\<bar>x\<bar>\<close>. The exponent range is left unbounded: byte counts and percentages neither
  overflow nor reach the subnormal numbers.
\<close>

definition pow2 :: "int \<Rightarrow> rat" where
  "pow2 e = 2 powi e"

definition round_half_even :: "rat \<Rightarrow> int" where
  "round_half_even r =
     (let f = \<lfloor>r\<rfloor>; d = r - of_int f in
      if d < 1 / 2 then f else if 1 / 2 < d then f + 1 else if even f then f else f + 1)"

definition binade :: "rat \<Rightarrow> int" where
  "binade x =
     (case quotient_of \<bar>x\<bar> of
        (p, q) \<Rightarrow> (let k = bitlen p - bitlen q in if pow2 k \<le> \<bar>x\<bar> then k else k - 1))"

definition dbl :: "rat \<Rightarrow> rat" where
  "dbl x =
     (if x = 0 then 0
      else (let e = binade x - 52 in sgn x * of_int (round_half_even (\<bar>x\<bar> / pow2 e)) * pow2 e))"

text \<open>Python's \<open>int(x)\<close> of a number: truncation towards zero.\<close>

definition py_int :: "rat \<Rightarrow> int" where
  "py_int x = (if 0 \<le> x then \<lfloor>x\<rfloor> else \<lceil>x\<rceil>)"

text \<open>
  The percentage \<open>int((float(total_avl) / total_size) * 100)\<close>: the conversion of both
  numbers, the division and the multiplication each round to a double.
\<close>

definition avl_percent :: "int \<Rightarrow> int \<Rightarrow> int" where
  "avl_percent total_avl total_size =
     py_int (dbl (dbl (dbl (of_int total_avl) / dbl (of_int total_size)) * 100))"

text \<open>
  \<open>bytes_to_free\<close>: \<open>threshold_size = int((thres_size_perc_stop * total_size) / 100)\<close>
  and \<open>int(threshold_size - total_avl)\<close>. The product of the two integers is exact and
  the true division of Python 3 rounds the exact quotient to a double. (The floor
  division that Python 2 performs here gives the same number as long as the product is
  not negative and stays below \<open>2 ^ 53\<close>.)
\<close>

definition bytes_to_free_of :: "int \<Rightarrow> int \<Rightarrow> int \<Rightarrow> int" where
  "bytes_to_free_of thres_size_perc_stop total_size total_avl =
     (let threshold_size = py_int (dbl (of_int (thres_size_perc_stop * total_size) / 100))
      in threshold_size - total_avl)"

text \<open>
  The body of the \<open>try\<close> inside the loop \<open>for share in ...\<close> of \<open>_clean_image_cache\<close>.
  The division by a \<open>total_size\<close> of zero raises \<open>ZeroDivisionError\<close>.
\<close>

definition clean_share ::
  "'w env \<Rightarrow> conf \<Rightarrow> int \<Rightarrow> int \<Rightarrow> string \<Rightarrow> 'w driver \<Rightarrow> (exn + unit) \<times> 'w driver" where
  "clean_share e c thres_size_perc_start thres_size_perc_stop share s =
     (case get_capacity_info e share s of
        (Inl x, s1) \<Rightarrow> (Inl x, s1)
      | (Inr (total_size, total_avl), s1) \<Rightarrow>
          (if total_size = 0 then (Inl (Exception ''ZeroDivisionError''), s1)
           else if avl_percent total_avl total_size \<le> thres_size_perc_start then
             (let s2 = LOG INFO ''Cleaning cache for share %s.'' [Str share] s1 in
              case find_old_cache_files e c share s2 of
                (Inl x, s3) \<Rightarrow> (Inl x, s3)
              | (Inr eligible_files, s3) \<Rightarrow>
                  (let bytes_to_free = bytes_to_free_of thres_size_perc_stop total_size total_avl;
                       s4 = LOG DEBUG ''Files to be queued for deletion %s''
                              [Files eligible_files] s3
                   in delete_files_till_bytes_free e eligible_files share bytes_to_free s4))
           else (Inr (), s1)))"

text \<open>
  The loop over the shares with its handler \<open>except Exception\<close>: an \<open>Exception\<close> is
  logged and the loop goes on; anything else leaves the loop. The result is the
  exception that leaves the loop, if any.
\<close>

fun clean_shares ::
  "'w env \<Rightarrow> conf \<Rightarrow> int \<Rightarrow> int \<Rightarrow> string list \<Rightarrow> 'w driver \<Rightarrow> exn option \<times> 'w driver" where
  "clean_shares e c start stop [] s = (None, s)"
| "clean_shares e c start stop (share # shares) s =
     (case clean_share e c start stop share s of
        (Inr u, s1) \<Rightarrow> clean_shares e c start stop shares s1
      | (Inl (Exception n), s1) \<Rightarrow>
          clean_shares e c start stop shares
            (LOG WARNING ''Exception during cache cleaning %(share)s. Message - %(ex)s''
               [Str share, Exn (Exception n)] s1)
      | (Inl (BaseException n), s1) \<Rightarrow> (Some (BaseException n), s1))"

text \<open>
  \<open>_clean_image_cache\<close>: the \<open>try\<close> block reads the two thresholds and runs the loop;
  the \<open>finally\<close> block logs and resets the flag, then the pending exception, if any,
  goes on to the caller.
\<close>

definition clean_image_cache ::
  "'w env \<Rightarrow> conf \<Rightarrow> 'w driver \<Rightarrow> exn option \<times> 'w driver" where
  "clean_image_cache e c s =
     (let s1 = LOG DEBUG ''Image cache cleaning in progress.'' [] s;
          (r, s2) =
            (case thres_avl_size_perc_start c of
               Inl x \<Rightarrow> (Some x, s1)
             | Inr thres_size_perc_start \<Rightarrow>
                 (case thres_avl_size_perc_stop c of
                    Inl x \<Rightarrow> (Some x, s1)
                  | Inr thres_size_perc_stop \<Rightarrow>
                      clean_shares e c thres_size_perc_start thres_size_perc_stop
                        (case mounted_shares s1 of None \<Rightarrow> [] | Some shares \<Rightarrow> shares) s1));
          s3 = LOG DEBUG ''Image cache cleaning done.'' [] s2
      in (r, s3\<lparr>cleaning := Some False\<rparr>))"

subsection \<open>Starting a pass\<close>

text \<open>
  \<open>_spawn_clean_cache_job\<close>, which runs under the lock \<open>clean_cache\<close>, so its test and
  its assignment are one step. Both branches end without a value: the method returns
  \<open>None\<close>. \<open>threading.Timer(0, self._clean_image_cache).start()\<close> starts one more pass.
\<close>

definition spawn_clean_cache_job :: "'w driver \<Rightarrow> pyval \<times> 'w driver" where
  "spawn_clean_cache_job s =
     (if cleaning s = Some True
      then (PyNone, LOG DEBUG ''Image cache cleaning in progress. Returning... '' [] s)
      else (PyNone, s\<lparr>cleaning := Some True, passes_running := Suc (passes_running s)\<rparr>))"

text \<open>
  The steps of the process that touch the flag: a trigger, the completion of a running
  pass, and any other activity, which changes the world and the mounted shares only.
\<close>

inductive job_step :: "'w env \<Rightarrow> conf \<Rightarrow> 'w driver \<Rightarrow> 'w driver \<Rightarrow> bool" for e c where
  trigger: "job_step e c s (snd (spawn_clean_cache_job s))"
| complete: "0 < passes_running s \<Longrightarrow> clean_image_cache e c s = (r, t) \<Longrightarrow>
     job_step e c s (t\<lparr>passes_running := passes_running t - 1\<rparr>)"
| other: "job_step e c s (s\<lparr>world := w, mounted_shares := ms\<rparr>)"

inductive job_reachable :: "'w env \<Rightarrow> conf \<Rightarrow> 'w driver \<Rightarrow> bool" for e c where
  start: "cleaning s = None \<Longrightarrow> passes_running s = 0 \<Longrightarrow> job_reachable e c s"
| step: "job_reachable e c s \<Longrightarrow> job_step e c s t \<Longrightarrow> job_reachable e c t"

subsection \<open>Cloning an image\<close>























subsection \<open>The eviction plan as the specification words it\<close>

text \<open>
  The smallest prefix of \<open>xs\<close> whose cumulative weight reaches \<open>b\<close>, or all of \<open>xs\<close>
  when no prefix does: the prefix of the least length \<open>n\<close> with
  \<open>b \<le> wt (xs ! 0) + ... + wt (xs ! (n - 1))\<close>.
\<close>

definition smallest_prefix :: "('a \<Rightarrow> int) \<Rightarrow> 'a list \<Rightarrow> int \<Rightarrow> 'a list" where
  "smallest_prefix wt xs b =
     (case find (\<lambda>n. b \<le> sum_list (map wt (take n xs))) [0..<Suc (length xs)] of
        Some n \<Rightarrow> take n xs
      | None \<Rightarrow> xs)"






text \<open>The path that the loop builds for a candidate: \<open>'%s/%s' % (mount_fs, f[0])\<close>.\<close>

definition path_of :: "string \<Rightarrow> cache_file \<Rightarrow> string" where
  "path_of mount_fs f = mount_fs @ ''/'' @ fst f"


subsection \<open>A simulated share for concrete runs\<close>

text \<open>
  A small world to run the definitions on: the world is the list of the commands given
  to \<open>_execute\<close>, in order; \<open>rm -f p\<close> fails with \<open>ProcessExecutionError\<close> for the
  paths in \<open>locked\<close> and succeeds otherwise; \<open>find\<close> prints \<open>listing\<close> or raises it;
  every share is mounted at \<open>/mnt\<close>; the table \<open>caps\<close> answers the capacity queries by
  export path and the table \<open>sizes\<close> gives the size that the shortlist reports for a
  file name.
\<close>

definition sim_execute ::
  "string list \<Rightarrow> exn + string \<Rightarrow> string list \<Rightarrow> bool \<Rightarrow> string list list
     \<Rightarrow> (exn + string \<times> string) \<times> string list list" where
  "sim_execute locked listing cmd run_as_root w =
     (if length cmd = 3 \<and> take 2 cmd = [''rm'', ''-f''] then
        (if cmd ! 2 \<in> set locked then (Inl (Exception ''ProcessExecutionError''), w @ [cmd])
         else (Inr ('''', ''''), w @ [cmd]))
      else if take 1 cmd = [''find''] then
        (case listing of
           Inl x \<Rightarrow> (Inl x, w @ [cmd])
         | Inr out \<Rightarrow> (Inr (out, ''''), w @ [cmd]))
      else (Inr ('''', ''''), w @ [cmd]))"

definition sim_env ::
  "string list \<Rightarrow> exn + string \<Rightarrow> (string \<times> (exn + int \<times> int)) list
     \<Rightarrow> (string \<times> pyval) list \<Rightarrow> string list list env" where
  "sim_env locked listing caps sizes =
     \<lparr>execute = sim_execute locked listing,
      get_flexvol_capacity =
        (\<lambda>path w. (case map_of caps path of
                       None \<Rightarrow> Inl (Exception ''NaApiError'')
                     | Some c \<Rightarrow> c, w)),
      get_mount_point_for_share = (\<lambda>share. Inr ''/mnt''),
      shortlist_del_eligible_files =
        (\<lambda>share old_files w.
           (Inr (map (\<lambda>n. (n, case map_of sizes n of None \<Rightarrow> PyInt 0 | Some z \<Rightarrow> z))
                   old_files),
            w)),
      execute_as_root = True\<rparr>"

text \<open>A driver that has just been set up: no flag, one mounted share, nothing logged.\<close>

definition fresh :: "string list list driver" where
  "fresh = \<lparr>cleaning = None, mounted_shares = Some [''host:/vol1''], passes_running = 0,
            log = [], world = []\<rparr>"

text \<open>A configuration: start at 70 percent, stop at 80 percent, expiry after 720 minutes.\<close>

definition sim_conf :: conf where
  "sim_conf = \<lparr>thres_avl_size_perc_start = Inr 70, thres_avl_size_perc_stop = Inr 80,
               expiry_thres_minutes = Inr 720\<rparr>"



section \<open>Lemmas on the delete loop\<close>

lemma delete_attempts_append:
  "delete_attempts (xs @ ys) = delete_attempts xs @ delete_attempts ys"
  by (induction xs rule: delete_attempts.induct) (auto split: list.splits log_arg.splits)

lemma delete_file_at_path_log:
  "\<exists>ys. log (snd (delete_file_at_path e p s)) = log s @ ys \<and> delete_attempts ys = []"
  by (auto simp: delete_file_at_path_def LOG_def Let_def split: prod.splits sum.splits exn.splits)

lemma delete_file_at_path_attempts:
  "delete_attempts (log (snd (delete_file_at_path e p s))) = delete_attempts (log s)"
  using delete_file_at_path_log [of e p s] by (auto simp: delete_attempts_append)

lemma attempts_LOG_delete:
  "delete_attempts (log (LOG DEBUG ''Delete file path %s'' [Str p] s)) =
     delete_attempts (log s) @ [p]"
  by (simp add: LOG_def delete_attempts_append)

text \<open>One round of the loop either leaves it or goes on over the rest of the files.\<close>

lemma delete_loop_Cons_shape:
  assumes "delete_file_at_path e (m @ ''/'' @ fst f)
             (LOG DEBUG ''Delete file path %s'' [Str (m @ ''/'' @ fst f)] s) = (r, s2)"
  shows "(\<exists>q. delete_loop e m (f # fs) b s = (q, s2)) \<or>
         (\<exists>b'. delete_loop e m (f # fs) b s = delete_loop e m fs b' s2)"
  using assms by (auto simp: Let_def split: sum.splits bool.splits)

lemma delete_loop_log: "\<exists>ys. log (snd (delete_loop e m fs b s)) = log s @ ys"
proof (induction fs arbitrary: b s)
  case Nil
  show ?case by simp
next
  case (Cons f fs)
  let ?s1 = "LOG DEBUG ''Delete file path %s'' [Str (m @ ''/'' @ fst f)] s"
  obtain r s2 where d: "delete_file_at_path e (m @ ''/'' @ fst f) ?s1 = (r, s2)"
    by (cases "delete_file_at_path e (m @ ''/'' @ fst f) ?s1")
  obtain ys where ys: "log s2 = log s @ ys"
    using delete_file_at_path_log [of e "m @ ''/'' @ fst f" ?s1] d by (auto simp: LOG_def)
  from delete_loop_Cons_shape [OF d, of fs b] show ?case
  proof (elim disjE exE)
    fix q
    assume "delete_loop e m (f # fs) b s = (q, s2)"
    then show ?thesis using ys by simp
  next
    fix b'
    assume eq: "delete_loop e m (f # fs) b s = delete_loop e m fs b' s2"
    obtain zs where "log (snd (delete_loop e m fs b' s2)) = log s2 @ zs"
      using Cons.IH [of b' s2] by blast
    then show ?thesis using eq ys by simp
  qed
qed

lemma delete_loop_first_attempt:
  "\<exists>xs. delete_attempts (log (snd (delete_loop e m (g # rest) b s))) =
          delete_attempts (log s) @ path_of m g # xs"
proof -
  let ?p = "m @ ''/'' @ fst g"
  let ?s1 = "LOG DEBUG ''Delete file path %s'' [Str ?p] s"
  obtain r s2 where d: "delete_file_at_path e ?p ?s1 = (r, s2)"
    by (cases "delete_file_at_path e ?p ?s1")
  have a2: "delete_attempts (log s2) = delete_attempts (log s) @ [?p]"
    using delete_file_at_path_attempts [of e ?p ?s1] d by (simp add: attempts_LOG_delete)
  have ext: "\<exists>ys. log (snd (delete_loop e m (g # rest) b s)) = log s2 @ ys"
    using delete_loop_Cons_shape [OF d, of rest b] delete_loop_log [of e m rest _ s2]
    by (elim disjE exE) simp_all
  then obtain ys where "log (snd (delete_loop e m (g # rest) b s)) = log s2 @ ys" ..
  then show ?thesis
    using a2 by (simp add: delete_attempts_append path_of_def)
qed

lemma delete_loop_append:
  "delete_loop e m pre b s = (Inr b1, s1) \<Longrightarrow> 0 < b1 \<Longrightarrow>
     delete_loop e m (pre @ post) b s = delete_loop e m post b1 s1"
proof (induction pre arbitrary: b s)
  case Nil
  then show ?case by simp
next
  case (Cons f fs)
  then show ?case
    by (auto simp: Let_def split: prod.splits sum.splits bool.splits if_splits)
qed

section \<open>Lemmas on the smallest prefix and the sort\<close>

lemma find_map_Suc:
  "find P (map Suc ns) = map_option Suc (find (\<lambda>n. P (Suc n)) ns)"
  by (induction ns) auto

lemma smallest_prefix_Cons:
  "0 < b \<Longrightarrow> smallest_prefix wt (x # xs) b = x # smallest_prefix wt xs (b - wt x)"
proof -
  assume b: "0 < b"
  have up: "[0..<Suc (length (x # xs))] = 0 # map Suc [0..<Suc (length xs)]"
    by (simp add: upt_conv_Cons map_Suc_upt del: upt_Suc)
  show ?thesis
    unfolding smallest_prefix_def up using b
    by (simp add: find_map_Suc algebra_simps split: option.splits del: upt_Suc)
qed

lemma smallest_prefix_done: "b \<le> 0 \<Longrightarrow> smallest_prefix wt xs b = []"
  unfolding smallest_prefix_def by (simp add: upt_conv_Cons del: upt_Suc)

lemma smallest_prefix_cong:
  "(\<And>x. x \<in> set xs \<Longrightarrow> wt x = wt' x) \<Longrightarrow> smallest_prefix wt xs b = smallest_prefix wt' xs b"
proof (induction xs arbitrary: b)
  case Nil
  show ?case by (simp add: smallest_prefix_def)
next
  case (Cons x xs)
  show ?case
  proof (cases "0 < b")
    case True
    then show ?thesis
      using Cons.IH [of "b - wt x"] Cons.prems by (simp add: smallest_prefix_Cons)
  next
    case False
    then show ?thesis by (simp add: smallest_prefix_done)
  qed
qed






lemma sorted_files_returns:
  "list_all (\<lambda>x. is_num (snd x)) fl \<or> list_all (\<lambda>x. is_str (snd x)) fl \<Longrightarrow>
     \<exists>sl. sorted_files fl = Inr sl"
  by (auto simp: sorted_files_def)




section \<open>C1: which files the reclamation attempts to delete\<close>




section \<open>C9: a failed delete\<close>

text \<open>
  C9. Let the loop have run over the files \<open>pre\<close> of the plan without leaving, with
  \<open>b1\<close> bytes still to free, and let the delete of the next file \<open>f\<close> end with the
  result \<open>ok\<close>. When the delete failed (\<open>ok\<close> is false) the loop goes on over the rest
  \<open>post\<close> of the plan with the same \<open>b1\<close>, and its next attempt is the next file of
  the plan; when it succeeded, the counter drops by the size \<open>int(f[1])\<close> of \<open>f\<close> and
  the loop is left exactly when the counter is no longer positive (or when the
  conversion of the size raises).
\<close>

theorem failed_delete_keeps_target:
  assumes "delete_loop e mount_fs pre b s = (Inr b1, s1)"
    and "0 < b1"
    and "delete_file_at_path e (path_of mount_fs f)
           (LOG DEBUG ''Delete file path %s'' [Str (path_of mount_fs f)] s1) = (Inr ok, s2)"
  shows "delete_loop e mount_fs (pre @ f # post) b s =
           (if ok then
              (case int_pyval (snd f) of
                 Inl x \<Rightarrow> (Inl x, s2)
               | Inr n \<Rightarrow>
                   (if b1 - n \<le> 0 then (Inr (b1 - n), s2)
                    else delete_loop e mount_fs post (b1 - n) s2))
            else delete_loop e mount_fs post b1 s2) \<and>
         (\<not> ok \<longrightarrow> (\<forall>g rest. post = g # rest \<longrightarrow>
            (\<exists>xs. delete_attempts (log (snd (delete_loop e mount_fs (pre @ f # post) b s))) =
                    delete_attempts (log s2) @ path_of mount_fs g # xs)))"
proof -
  have one: "delete_loop e mount_fs (f # post) b1 s1 =
           (if ok then
              (case int_pyval (snd f) of
                 Inl x \<Rightarrow> (Inl x, s2)
               | Inr n \<Rightarrow>
                   (if b1 - n \<le> 0 then (Inr (b1 - n), s2)
                    else delete_loop e mount_fs post (b1 - n) s2))
            else delete_loop e mount_fs post b1 s2)"
    using assms(3) by (simp add: Let_def path_of_def)
  have eq: "delete_loop e mount_fs (pre @ f # post) b s = delete_loop e mount_fs (f # post) b1 s1"
    by (rule delete_loop_append [OF assms(1,2)])
  have nxt: "\<not> ok \<longrightarrow> (\<forall>g rest. post = g # rest \<longrightarrow>
            (\<exists>xs. delete_attempts (log (snd (delete_loop e mount_fs (pre @ f # post) b s))) =
                    delete_attempts (log s2) @ path_of mount_fs g # xs))"
    unfolding eq one using delete_loop_first_attempt [of e mount_fs _ _ b1 s2] by auto
  show ?thesis
    using eq one nxt by simp
qed

theorem failed_delete_keeps_target_witness:
  "fst (delete_loop (sim_env [''/mnt/img-cache-b''] (Inr []) [] []) ''/mnt''
        [(''img-cache-a'', PyStr ''4''), (''img-cache-b'', PyStr ''30''),
         (''img-cache-c'', PyStr ''12'')] 10 fresh) = Inr (- 6) \<and>
   delete_attempts (log (snd (delete_loop (sim_env [''/mnt/img-cache-b''] (Inr []) [] []) ''/mnt''
        [(''img-cache-a'', PyStr ''4''), (''img-cache-b'', PyStr ''30''),
         (''img-cache-c'', PyStr ''12'')] 10 fresh))) =
     [''/mnt/img-cache-a'', ''/mnt/img-cache-b'', ''/mnt/img-cache-c'']"
proof -
  let ?e = "sim_env [''/mnt/img-cache-b''] (Inr []) [] []"
  let ?pre = "[(''img-cache-a'', PyStr ''4'')]"
  let ?f = "(''img-cache-b'', PyStr ''30'')"
  let ?post = "[(''img-cache-c'', PyStr ''12'')]"
  let ?s1 = "snd (delete_loop ?e ''/mnt'' ?pre 10 fresh)"
  let ?d = "delete_file_at_path ?e (path_of ''/mnt'' ?f)
              (LOG DEBUG ''Delete file path %s'' [Str (path_of ''/mnt'' ?f)] ?s1)"
  have f1: "fst (delete_loop ?e ''/mnt'' ?pre 10 fresh) = Inr 6" by code_simp
  have h1: "delete_loop ?e ''/mnt'' ?pre 10 fresh = (Inr 6, ?s1)"
    using f1 by (simp add: prod_eq_iff)
  have h2: "(0::int) < 6" by simp
  have f3: "fst ?d = Inr False" by code_simp
  have h3: "?d = (Inr False, snd ?d)"
    using f3 by (simp add: prod_eq_iff)
  have step: "delete_loop ?e ''/mnt'' (?pre @ ?f # ?post) 10 fresh =
      delete_loop ?e ''/mnt'' ?post 6 (snd ?d)"
    using failed_delete_keeps_target [OF h1 h2 h3, of ?post] by simp
  have r1: "fst (delete_loop ?e ''/mnt'' ?post 6 (snd ?d)) = Inr (- 6)" by code_simp
  have r2: "delete_attempts (log (snd (delete_loop ?e ''/mnt'' ?post 6 (snd ?d)))) =
     [''/mnt/img-cache-a'', ''/mnt/img-cache-b'', ''/mnt/img-cache-c'']" by code_simp
  show ?thesis
    using step r1 r2 by simp
qed

section \<open>Lemmas on the arithmetic of the thresholds\<close>

lemma pow2_pos: "0 < pow2 e"
  by (simp add: pow2_def)

lemma pow2_add: "pow2 (a + b) = pow2 a * pow2 b"
  by (simp add: pow2_def power_int_add)

lemma pow2_mono: "a \<le> b \<Longrightarrow> pow2 a \<le> pow2 b"
  by (simp add: pow2_def power_int_increasing)

lemma pow2_of_nat: "pow2 (int n) = of_int (2 ^ n)"
  by (simp add: pow2_def)

lemma bitlen_pos: "0 < p \<Longrightarrow> 0 < bitlen p"
  using bitlen_bounds [of p] bitlen_nonneg [of p]
  by (cases "bitlen p = 0") auto

lemma pow2_bitlen_le:
  assumes "0 < p"
  shows "pow2 (bitlen p - 1) \<le> of_int p"
proof -
  have "bitlen p - 1 = int (nat (bitlen p - 1))"
    using bitlen_pos [OF assms] by simp
  then have "pow2 (bitlen p - 1) = of_int (2 ^ nat (bitlen p - 1))"
    using pow2_of_nat [of "nat (bitlen p - 1)"] by simp
  also have "\<dots> \<le> of_int p"
    using bitlen_bounds [OF assms] by (simp only: of_int_le_iff)
  finally show ?thesis .
qed

lemma pow2_bitlen_gt:
  assumes "0 < q"
  shows "of_int q < pow2 (bitlen q)"
proof -
  have "bitlen q = int (nat (bitlen q))"
    using bitlen_pos [OF assms] by simp
  then have "pow2 (bitlen q) = of_int (2 ^ nat (bitlen q))"
    using pow2_of_nat [of "nat (bitlen q)"] by simp
  moreover have "rat_of_int q < of_int (2 ^ nat (bitlen q))"
    using bitlen_bounds [OF assms] by (simp only: of_int_less_iff)
  ultimately show ?thesis by simp
qed

lemma binade_le:
  assumes "x \<noteq> 0"
  shows "pow2 (binade x) \<le> \<bar>x\<bar>"
proof -
  obtain p q where pq: "quotient_of \<bar>x\<bar> = (p, q)"
    by (cases "quotient_of \<bar>x\<bar>")
  have q: "0 < q" using quotient_of_denom_pos [OF pq] .
  have xa: "\<bar>x\<bar> = of_int p / of_int q" using quotient_of_div [OF pq] .
  have "0 < \<bar>x\<bar>" using assms by simp
  then have p: "0 < p" unfolding xa using q by (simp add: zero_less_divide_iff)
  let ?k = "bitlen p - bitlen q"
  show ?thesis
  proof (cases "pow2 ?k \<le> \<bar>x\<bar>")
    case True
    then show ?thesis using pq by (simp add: binade_def Let_def)
  next
    case False
    have "pow2 (?k - 1) * of_int q \<le> pow2 (?k - 1) * pow2 (bitlen q)"
      using pow2_bitlen_gt [OF q] pow2_pos [of "?k - 1"] by simp
    also have "\<dots> = pow2 (bitlen p - 1)"
      using pow2_add [of "?k - 1" "bitlen q"] by (simp add: algebra_simps)
    also have "\<dots> \<le> of_int p" by (rule pow2_bitlen_le [OF p])
    finally have "pow2 (?k - 1) * of_int q \<le> of_int p" .
    then have "pow2 (?k - 1) \<le> \<bar>x\<bar>"
      unfolding xa using q by (simp add: pos_le_divide_eq)
    then show ?thesis using pq False by (simp add: binade_def Let_def)
  qed
qed

lemma round_half_even_le:
  assumes "r \<le> of_int n"
  shows "round_half_even r \<le> n"
proof -
  have f: "\<lfloor>r\<rfloor> \<le> n" using assms by (simp add: floor_le_iff)
  have "\<lfloor>r\<rfloor> + 1 \<le> n" if "0 < r - of_int \<lfloor>r\<rfloor>"
  proof -
    have "of_int \<lfloor>r\<rfloor> < r" using that by simp
    then have "rat_of_int \<lfloor>r\<rfloor> < of_int n" using assms by simp
    then show ?thesis by simp
  qed
  then show ?thesis
    using f unfolding round_half_even_def Let_def
    by (auto simp: not_less)
qed

lemma py_int_le: "x \<le> of_int a \<Longrightarrow> py_int x \<le> a"
  unfolding py_int_def by (auto simp: ceiling_le_iff floor_le_iff intro: le_less_trans)

text \<open>Rounding to a double does not step over an integer below \<open>2 ^ 53\<close>.\<close>

lemma dbl_le_int:
  assumes "0 \<le> x" and "x \<le> of_int a" and "a < 2 ^ 53"
  shows "dbl x \<le> of_int a"
proof (cases "x = 0")
  case True
  then show ?thesis using assms by (simp add: dbl_def)
next
  case False
  then have xp: "0 < x" using assms(1) by simp
  let ?e = "binade x - 52"
  have "pow2 (binade x) \<le> x" using binade_le [OF False] xp by simp
  also have "\<dots> \<le> of_int a" by (rule assms(2))
  also have "\<dots> < of_int (2 ^ 53)"
    using assms(3) by (simp only: of_int_less_iff)
  also have "\<dots> = pow2 53"
    by (simp add: pow2_def)
  finally have "pow2 (binade x) < pow2 53" .
  then have "binade x < 53"
    using pow2_mono [of 53 "binade x"] by (cases "binade x < 53") auto
  then have e: "?e \<le> 0" by simp
  have inv: "pow2 ?e * pow2 (- ?e) = 1"
    using pow2_add [of ?e "- ?e"] by (simp add: pow2_def)
  have "- ?e = int (nat (- ?e))" using e by simp
  then have "pow2 (- ?e) = of_int (2 ^ nat (- ?e))"
    using pow2_of_nat [of "nat (- ?e)"] by simp
  then have N: "of_int a * pow2 (- ?e) = of_int (a * 2 ^ nat (- ?e))" by simp
  have div: "x / pow2 ?e = x * pow2 (- ?e)"
    using inv pow2_pos [of ?e] by (simp add: field_simps)
  have "x / pow2 ?e \<le> of_int a * pow2 (- ?e)"
    unfolding div using assms(2) pow2_pos [of "- ?e"] by simp
  then have "round_half_even (x / pow2 ?e) \<le> a * 2 ^ nat (- ?e)"
    unfolding N by (rule round_half_even_le)
  then have "rat_of_int (round_half_even (x / pow2 ?e)) \<le> of_int (a * 2 ^ nat (- ?e))"
    by (simp only: of_int_le_iff)
  then have "of_int (round_half_even (x / pow2 ?e)) * pow2 ?e \<le>
      of_int a * pow2 (- ?e) * pow2 ?e"
    unfolding N using pow2_pos [of ?e] by simp
  also have "\<dots> = of_int a" using inv by (simp add: mult.assoc mult.commute)
  finally show ?thesis
    using xp False by (simp add: dbl_def Let_def)
qed

text \<open>
  The percentage in doubles: 29 of 100 bytes make 28 percent, since \<open>0.29 * 100\<close> is
  \<open>28.999999999999996\<close>, and 141 of 200 bytes make 70 percent.
\<close>

lemma avl_percent_in_doubles: "avl_percent 29 100 = 28 \<and> avl_percent 141 200 = 70"
  by code_simp

section \<open>C3: the scanner and a failing listing command\<close>

text \<open>
  C3 as stated fails: when the \<open>find\<close> command raises, \<open>_find_old_cache_files\<close> raises
  the same exception and logs nothing.
\<close>

theorem scanner_swallows_counterexample:
  "find_old_cache_files (sim_env [] (Inl (Exception ''ProcessExecutionError'')) [] [])
     sim_conf ''host:/vol1'' fresh =
   (Inl (Exception ''ProcessExecutionError''),
    fresh\<lparr>world := [[''find'', ''/mnt'', ''-maxdepth'', ''1'', ''-name'', ''img-cache*'',
                       ''-amin'', ''+720'']]\<rparr>)"
  by code_simp

text \<open>
  C3, as the code has it. With the mount point found and the expiry threshold read, the
  scanner returns the empty list, without raising, when the listing command prints
  nothing (the share holds no old cache file); when the listing command raises, the
  scanner neither catches nor logs: the exception leaves the scanner, the log as it
  was. (The handler of the share loop in \<open>_clean_image_cache\<close> is what logs it.)
\<close>

theorem scanner_empty_or_raises:
  assumes "get_mount_point_for_share e share = Inr mount_fs"
    and "expiry_thres_minutes c = Inr threshold_minutes"
  shows "(\<forall>err w. execute e [''find'', mount_fs, ''-maxdepth'', ''1'', ''-name'', ''img-cache*'',
                      ''-amin'', ''+'' @ str_int threshold_minutes] (execute_as_root e) (world s)
                    = (Inr ([], err), w) \<longrightarrow>
            find_old_cache_files e c share s = (Inr [], s\<lparr>world := w\<rparr>)) \<and>
         (\<forall>x w. execute e [''find'', mount_fs, ''-maxdepth'', ''1'', ''-name'', ''img-cache*'',
                      ''-amin'', ''+'' @ str_int threshold_minutes] (execute_as_root e) (world s)
                    = (Inl x, w) \<longrightarrow>
            find_old_cache_files e c share s = (Inl x, s\<lparr>world := w\<rparr>))"
  using assms by (simp add: find_old_cache_files_def Let_def)

theorem scanner_empty_or_raises_witness:
  "find_old_cache_files (sim_env [] (Inr []) [] []) sim_conf ''host:/vol1'' fresh =
     (Inr [], fresh\<lparr>world := [[''find'', ''/mnt'', ''-maxdepth'', ''1'', ''-name'', ''img-cache*'',
                                 ''-amin'', ''+720'']]\<rparr>)"
proof -
  let ?e = "sim_env [] (Inr []) [] []"
  have h1: "get_mount_point_for_share ?e ''host:/vol1'' = Inr ''/mnt''"
    by (simp add: sim_env_def)
  have h2: "expiry_thres_minutes sim_conf = Inr 720"
    by (simp add: sim_conf_def)
  have s: "str_int 720 = ''720''" by code_simp
  have h3: "execute ?e [''find'', ''/mnt'', ''-maxdepth'', ''1'', ''-name'', ''img-cache*'',
                      ''-amin'', ''+'' @ str_int 720] (execute_as_root ?e) (world fresh)
              = (Inr ([], []), [[''find'', ''/mnt'', ''-maxdepth'', ''1'', ''-name'', ''img-cache*'',
                                 ''-amin'', ''+720'']])"
    unfolding s by (simp add: sim_env_def sim_execute_def fresh_def)
  show ?thesis
    using scanner_empty_or_raises [OF h1 h2, where s = fresh] h3 by blast
qed

section \<open>C4: shares above the start threshold\<close>

text \<open>
  C4 as stated fails: a share with 141 of 200 bytes available is 70.5 percent free,
  strictly more than the start threshold 70, and yet it is scanned and a file on it is
  deleted, because the code compares the percentage truncated to an integer.
\<close>

theorem above_threshold_skipped_counterexample:
  "(70::rat) < rat_of_int 141 / rat_of_int 200 * 100 \<and>
   world (snd (clean_image_cache
       (sim_env [] (Inr ''/mnt/img-cache-a'') [(''/vol1'', Inr (200, 141))] [(''img-cache-a'', PyStr ''50'')])
       sim_conf fresh)) =
     [[''find'', ''/mnt'', ''-maxdepth'', ''1'', ''-name'', ''img-cache*'', ''-amin'', ''+720''],
      [''rm'', ''-f'', ''/mnt/img-cache-a'']]"
  by code_simp

text \<open>
  C4, as the code has it. For every share whose available percentage, computed in
  doubles and truncated to an integer as \<open>int((float(total_avl) / total_size) * 100)\<close>
  does, is strictly greater
  than the start threshold, the pass does nothing for that share beyond the capacity
  query: the state is the one the query left, nothing is logged, and whatever
  \<open>_execute\<close> and the shortlist would do makes no difference, since neither
  \<open>_find_old_cache_files\<close> nor \<open>_delete_files_till_bytes_free\<close> is called.
\<close>

theorem above_threshold_skipped:
  assumes "get_capacity_info e share s = (Inr (total_size, total_avl), s1)"
    and "total_size \<noteq> 0"
    and "thres_size_perc_start < avl_percent total_avl total_size"
  shows "clean_share e c thres_size_perc_start thres_size_perc_stop share s = (Inr (), s1) \<and>
         clean_share (e\<lparr>execute := ex, shortlist_del_eligible_files := sh\<rparr>) c
           thres_size_perc_start thres_size_perc_stop share s = (Inr (), s1) \<and>
         log s1 = log s"
proof -
  have same: "get_capacity_info (e\<lparr>execute := ex, shortlist_del_eligible_files := sh\<rparr>) share s =
      get_capacity_info e share s"
    by (simp add: get_capacity_info_def)
  have lg: "log s1 = log s"
    using assms(1)
    by (auto simp: get_capacity_info_def Let_def split: if_splits prod.splits sum.splits)
  show ?thesis
    using assms lg unfolding clean_share_def same by simp
qed

theorem above_threshold_skipped_witness:
  "clean_share (sim_env [] (Inr ''/mnt/img-cache-a'') [(''/vol1'', Inr (200, 150))] [(''img-cache-a'', PyStr ''50'')])
     sim_conf 70 80 ''host:/vol1'' fresh = (Inr (), fresh)"
proof -
  let ?e = "sim_env [] (Inr ''/mnt/img-cache-a'') [(''/vol1'', Inr (200, 150))] [(''img-cache-a'', PyStr ''50'')]"
  have h1: "get_capacity_info ?e ''host:/vol1'' fresh = (Inr (200, 150), fresh)"
    by code_simp
  have h2: "(200::int) \<noteq> 0" by simp
  have h3: "(70::int) < avl_percent 150 200" by code_simp
  show ?thesis
    using above_threshold_skipped [OF h1 h2 h3] by simp
qed

section \<open>C8: the byte target\<close>

text \<open>
  C8 as stated fails in its first half: with a stop threshold of 80 percent, a share of
  101 bytes and nothing available, the target handed to the deletion is 80 bytes, not
  80 * 101 / 100 - 0 = 80.8.
\<close>

theorem byte_target_exact_counterexample:
  "log (snd (clean_share (sim_env [] (Inr []) [(''/vol1'', Inr (101, 0))] []) sim_conf 70 80
       ''host:/vol1'' fresh)) ! 2 = (DEBUG, ''Bytes to free %s'', [Num 80]) \<and>
   rat_of_int 80 \<noteq> 80 * rat_of_int 101 / 100 - rat_of_int 0"
  by code_simp

text \<open>
  C8, as the code has it. For a share at or below the start threshold whose scan
  returned, the byte target passed to the deletion is
  \<open>stop_threshold_percent * total_size / 100\<close> as a double, truncated to an integer,
  minus the available bytes. Whenever this target is at most zero, the pass ends its
  work on the share after logging the target: no \<open>rm\<close> is run, the world is as the
  scan left it. And for a product that is not negative and fewer than \<open>2 ^ 53\<close>
  available bytes, the target is at most zero whenever the quantity without rounding
  and truncation is.
\<close>

theorem byte_target_truncated:
  assumes "get_capacity_info e share s = (Inr (total_size, total_avl), s1)"
    and "total_size \<noteq> 0"
    and "avl_percent total_avl total_size \<le> thres_size_perc_start"
    and "find_old_cache_files e c share (LOG INFO ''Cleaning cache for share %s.'' [Str share] s1)
           = (Inr eligible_files, s3)"
  shows "clean_share e c thres_size_perc_start thres_size_perc_stop share s =
           delete_files_till_bytes_free e eligible_files share
             (py_int (dbl (of_int (thres_size_perc_stop * total_size) / 100)) - total_avl)
             (LOG DEBUG ''Files to be queued for deletion %s'' [Files eligible_files] s3) \<and>
         (py_int (dbl (of_int (thres_size_perc_stop * total_size) / 100)) - total_avl \<le> 0 \<longrightarrow>
            clean_share e c thres_size_perc_start thres_size_perc_stop share s =
              (Inr (),
               LOG DEBUG ''Bytes to free %s''
                 [Num (py_int (dbl (of_int (thres_size_perc_stop * total_size) / 100)) - total_avl)]
                 (LOG DEBUG ''Files to be queued for deletion %s'' [Files eligible_files] s3)) \<and>
            world (snd (clean_share e c thres_size_perc_start thres_size_perc_stop share s)) = world s3) \<and>
         (0 \<le> thres_size_perc_stop * total_size \<and> total_avl < 2 ^ 53 \<and>
          rat_of_int thres_size_perc_stop * rat_of_int total_size / 100 - rat_of_int total_avl \<le> 0 \<longrightarrow>
            py_int (dbl (of_int (thres_size_perc_stop * total_size) / 100)) - total_avl \<le> 0)"
proof -
  let ?q = "rat_of_int (thres_size_perc_stop * total_size) / 100"
  let ?b = "py_int (dbl ?q) - total_avl"
  let ?s4 = "LOG DEBUG ''Files to be queued for deletion %s'' [Files eligible_files] s3"
  have call: "clean_share e c thres_size_perc_start thres_size_perc_stop share s =
           delete_files_till_bytes_free e eligible_files share ?b ?s4"
    using assms by (simp add: clean_share_def bytes_to_free_of_def Let_def)
  have none: "?b \<le> 0 \<longrightarrow>
      delete_files_till_bytes_free e eligible_files share ?b ?s4 =
        (Inr (), LOG DEBUG ''Bytes to free %s'' [Num ?b] ?s4)"
    by (simp add: delete_files_till_bytes_free_def Let_def)
  have w: "world (LOG DEBUG ''Bytes to free %s'' [Num ?b] ?s4) = world s3"
    by (simp add: LOG_def)
  have exact: "0 \<le> thres_size_perc_stop * total_size \<and> total_avl < 2 ^ 53 \<and>
      rat_of_int thres_size_perc_stop * rat_of_int total_size / 100 - rat_of_int total_avl \<le> 0
        \<longrightarrow> ?b \<le> 0"
  proof (intro impI, elim conjE)
    assume nn: "0 \<le> thres_size_perc_stop * total_size"
      and small: "total_avl < 2 ^ 53"
      and le: "rat_of_int thres_size_perc_stop * rat_of_int total_size / 100 - rat_of_int total_avl \<le> 0"
    have "(0::rat) \<le> of_int (thres_size_perc_stop * total_size)"
      using nn by (simp only: of_int_0_le_iff)
    then have q0: "0 \<le> ?q" by (rule divide_nonneg_nonneg) simp
    have qa: "?q \<le> of_int total_avl" using le by simp
    have "dbl ?q \<le> of_int total_avl" by (rule dbl_le_int [OF q0 qa small])
    then have "py_int (dbl ?q) \<le> total_avl" by (rule py_int_le)
    then show "?b \<le> 0" by simp
  qed
  show ?thesis
    using call none w exact by simp
qed

theorem byte_target_truncated_witness:
  "world (snd (clean_share
      (sim_env [] (Inr ''/mnt/img-cache-a'') [(''/vol1'', Inr (101, 81))] [(''img-cache-a'', PyStr ''50'')])
      sim_conf 90 80 ''host:/vol1'' fresh)) =
     [[''find'', ''/mnt'', ''-maxdepth'', ''1'', ''-name'', ''img-cache*'', ''-amin'', ''+720'']]"
proof -
  let ?e = "sim_env [] (Inr ''/mnt/img-cache-a'') [(''/vol1'', Inr (101, 81))] [(''img-cache-a'', PyStr ''50'')]"
  let ?s3 = "snd (find_old_cache_files ?e sim_conf ''host:/vol1''
                (LOG INFO ''Cleaning cache for share %s.'' [Str ''host:/vol1''] fresh))"
  have h1: "get_capacity_info ?e ''host:/vol1'' fresh = (Inr (101, 81), fresh)"
    by code_simp
  have h2: "(101::int) \<noteq> 0" by simp
  have h3: "avl_percent 81 101 \<le> 90" by code_simp
  have f4: "fst (find_old_cache_files ?e sim_conf ''host:/vol1''
                (LOG INFO ''Cleaning cache for share %s.'' [Str ''host:/vol1''] fresh))
              = Inr [(''img-cache-a'', PyStr ''50'')]"
    by code_simp
  have h4: "find_old_cache_files ?e sim_conf ''host:/vol1''
                (LOG INFO ''Cleaning cache for share %s.'' [Str ''host:/vol1''] fresh)
              = (Inr [(''img-cache-a'', PyStr ''50'')], ?s3)"
    using f4 by (simp add: prod_eq_iff)
  have h5: "py_int (dbl (rat_of_int (80 * 101) / 100)) - 81 \<le> 0" by code_simp
  have w3: "world ?s3 =
     [[''find'', ''/mnt'', ''-maxdepth'', ''1'', ''-name'', ''img-cache*'', ''-amin'', ''+720'']]"
    by code_simp
  have "world (snd (clean_share ?e sim_conf 90 80 ''host:/vol1'' fresh)) = world ?s3"
    using byte_target_truncated [OF h1 h2 h3 h4, of 80] h5 by blast
  then show ?thesis
    using w3 by simp
qed

section \<open>Lemmas on the pass: what it leaves untouched\<close>

lemma delete_file_at_path_frame:
  "cleaning (snd (delete_file_at_path e p s)) = cleaning s \<and>
   passes_running (snd (delete_file_at_path e p s)) = passes_running s"
  by (auto simp: delete_file_at_path_def LOG_def Let_def split: prod.splits sum.splits exn.splits)

lemma delete_loop_frame:
  "cleaning (snd (delete_loop e m fs b s)) = cleaning s \<and>
   passes_running (snd (delete_loop e m fs b s)) = passes_running s"
proof (induction fs arbitrary: b s)
  case Nil
  show ?case by simp
next
  case (Cons f fs)
  let ?s1 = "LOG DEBUG ''Delete file path %s'' [Str (m @ ''/'' @ fst f)] s"
  obtain r s2 where d: "delete_file_at_path e (m @ ''/'' @ fst f) ?s1 = (r, s2)"
    by (cases "delete_file_at_path e (m @ ''/'' @ fst f) ?s1")
  have fr: "cleaning s2 = cleaning s \<and> passes_running s2 = passes_running s"
    using delete_file_at_path_frame [of e "m @ ''/'' @ fst f" ?s1] d by (simp add: LOG_def)
  from delete_loop_Cons_shape [OF d, of fs b] show ?case
  proof (elim disjE exE)
    fix q
    assume "delete_loop e m (f # fs) b s = (q, s2)"
    then show ?thesis using fr by simp
  next
    fix b'
    assume "delete_loop e m (f # fs) b s = delete_loop e m fs b' s2"
    then show ?thesis using fr Cons.IH [of b' s2] by simp
  qed
qed

lemma delete_loop_frameD:
  "delete_loop e m fs b s = (r, t) \<Longrightarrow>
     cleaning t = cleaning s \<and> passes_running t = passes_running s"
  using delete_loop_frame [of e m fs b s] by simp

lemma delete_files_till_bytes_free_frame:
  "cleaning (snd (delete_files_till_bytes_free e fl share b s)) = cleaning s \<and>
   passes_running (snd (delete_files_till_bytes_free e fl share b s)) = passes_running s"
  by (auto simp: delete_files_till_bytes_free_def Let_def LOG_def
           split: sum.splits prod.splits dest!: delete_loop_frameD)

lemma delete_files_till_bytes_free_frameD:
  "delete_files_till_bytes_free e fl share b s = (r, t) \<Longrightarrow>
     cleaning t = cleaning s \<and> passes_running t = passes_running s"
  using delete_files_till_bytes_free_frame [of e fl share b s] by simp

lemma find_old_cache_files_frameD:
  "find_old_cache_files e c share s = (r, t) \<Longrightarrow>
     cleaning t = cleaning s \<and> passes_running t = passes_running s"
  by (auto simp: find_old_cache_files_def Let_def split: sum.splits prod.splits if_splits)

lemma get_capacity_info_frameD:
  "get_capacity_info e share s = (r, t) \<Longrightarrow>
     cleaning t = cleaning s \<and> passes_running t = passes_running s"
  by (auto simp: get_capacity_info_def Let_def split: sum.splits prod.splits if_splits)

lemma clean_share_frameD:
  "clean_share e c start stop share s = (r, t) \<Longrightarrow>
     cleaning t = cleaning s \<and> passes_running t = passes_running s"
  by (auto simp: clean_share_def Let_def LOG_def split: sum.splits prod.splits if_splits
           dest!: get_capacity_info_frameD find_old_cache_files_frameD
                  delete_files_till_bytes_free_frameD)

lemma clean_shares_frameD:
  "clean_shares e c start stop shares s = (r, t) \<Longrightarrow> passes_running t = passes_running s"
proof (induction shares arbitrary: s)
  case Nil
  then show ?case by simp
next
  case (Cons share shares)
  obtain q s1 where g: "clean_share e c start stop share s = (q, s1)"
    by (cases "clean_share e c start stop share s")
  have f1: "passes_running s1 = passes_running s"
    using clean_share_frameD [OF g] by simp
  show ?case
  proof (cases q)
    case (Inr u)
    then show ?thesis using Cons.prems g f1 Cons.IH [of s1] by simp
  next
    case (Inl x)
    show ?thesis
    proof (cases x)
      case (Exception n)
      then show ?thesis
        using Cons.prems g f1 Inl
          Cons.IH [of "LOG WARNING ''Exception during cache cleaning %(share)s. Message - %(ex)s''
                     [Str share, Exn (Exception n)] s1"]
        by (simp add: LOG_def)
    next
      case (BaseException n)
      then show ?thesis using Cons.prems g f1 Inl by auto
    qed
  qed
qed

lemma clean_image_cache_passes:
  "passes_running (snd (clean_image_cache e c s)) = passes_running s"
  by (auto simp: clean_image_cache_def Let_def LOG_def split: sum.splits prod.splits
           dest!: clean_shares_frameD)

lemma clean_image_cache_flag: "cleaning (snd (clean_image_cache e c s)) = Some False"
  by (simp add: clean_image_cache_def Let_def split: prod.splits)



lemma job_invariant:
  "job_reachable e c s \<Longrightarrow>
     (passes_running s = 0 \<and> cleaning s \<noteq> Some True) \<or>
     (passes_running s = 1 \<and> cleaning s = Some True)"
proof (induction rule: job_reachable.induct)
  case (start s)
  then show ?case by simp
next
  case (step s t)
  from step.hyps(2) show ?case
  proof (cases rule: job_step.cases)
    case trigger
    then show ?thesis
      using step.IH by (auto simp: spawn_clean_cache_job_def LOG_def)
  next
    case (complete r t')
    have "cleaning t' = Some False" and "passes_running t' = passes_running s"
      using clean_image_cache_flag [of e c s] clean_image_cache_passes [of e c s] complete(3)
      by simp_all
    then show ?thesis
      using complete(1,2) step.IH by auto
  next
    case (other w ms)
    then show ?thesis
      using step.IH by auto
  qed
qed


section \<open>C6: a share that raises\<close>




section \<open>C7: the flag after a pass\<close>

text \<open>
  C7. However \<open>_clean_image_cache\<close> ends, the flag \<open>cleaning\<close> is \<open>False\<close> afterwards
  and the last thing logged is the message of the \<open>finally\<close> block. This covers the
  pass whose loop ran to its end, with or without shares that raised, the pass that an
  exception outside class \<open>Exception\<close> left in the middle of the loop, and the pass
  that raised before the loop, as it does when a threshold cannot be read: then the
  exception of the read is what the pass raises, after the reset.
\<close>

theorem flag_reset_on_every_exit:
  "cleaning (snd (clean_image_cache e c s)) = Some False \<and>
   last (log (snd (clean_image_cache e c s))) = (DEBUG, ''Image cache cleaning done.'', []) \<and>
   fst (clean_image_cache e (c\<lparr>thres_avl_size_perc_start := Inl x\<rparr>) s) = Some x \<and>
   cleaning (snd (clean_image_cache e (c\<lparr>thres_avl_size_perc_start := Inl x\<rparr>) s)) = Some False"
  by (simp add: clean_image_cache_def Let_def LOG_def split: prod.splits)

section \<open>C2: one pass at a time\<close>

text \<open>
  C2. In every state that the process can reach from a start without flag and without
  pass, through triggers, completions of passes and other activity, at most one pass is
  running; and a trigger that arrives while a pass is running starts none: the number
  of passes and the flag stay as they are, and nothing is kept for later but a line
  in the log.
\<close>

theorem single_flight:
  assumes "job_reachable e c s"
  shows "passes_running s \<le> 1 \<and>
         (0 < passes_running s \<longrightarrow>
            snd (spawn_clean_cache_job s) =
              LOG DEBUG ''Image cache cleaning in progress. Returning... '' [] s \<and>
            passes_running (snd (spawn_clean_cache_job s)) = passes_running s \<and>
            cleaning (snd (spawn_clean_cache_job s)) = cleaning s)"
  using job_invariant [OF assms] by (auto simp: spawn_clean_cache_job_def LOG_def)

theorem single_flight_witness:
  "passes_running (snd (spawn_clean_cache_job fresh)) = 1 \<and>
   passes_running (snd (spawn_clean_cache_job (snd (spawn_clean_cache_job fresh)))) = 1"
proof -
  let ?e = "sim_env [] (Inr []) [] []"
  have r0: "job_reachable ?e sim_conf fresh"
    by (rule job_reachable.start) (simp_all add: fresh_def)
  have r1: "job_reachable ?e sim_conf (snd (spawn_clean_cache_job fresh))"
    by (rule job_reachable.step [OF r0 job_step.trigger])
  have p: "passes_running (snd (spawn_clean_cache_job fresh)) = 1"
    by (simp add: spawn_clean_cache_job_def fresh_def)
  show ?thesis
    using single_flight [OF r1] p by (simp add: LOG_def)
qed

section \<open>C5: what a trigger returns\<close>

text \<open>
  C5 as stated fails: the trigger on an idle driver starts a pass and returns \<open>None\<close>,
  not the boolean \<open>True\<close>.
\<close>

theorem trigger_returns_bool_counterexample:
  "passes_running (snd (spawn_clean_cache_job fresh)) = Suc (passes_running fresh) \<and>
   fst (spawn_clean_cache_job fresh) \<noteq> PyBool True \<and>
   fst (spawn_clean_cache_job fresh) = PyNone"
  by (simp add: spawn_clean_cache_job_def fresh_def)

text \<open>
  C5, as the code has it. \<open>_spawn_clean_cache_job\<close> returns \<open>None\<close> in every case.
  When the flag is set it returns at once: it logs a line, starts no pass and leaves
  nothing queued; otherwise it sets the flag and starts one pass.
\<close>

theorem trigger_returns_none:
  "fst (spawn_clean_cache_job s) = PyNone \<and>
   (cleaning s = Some True \<longrightarrow>
      snd (spawn_clean_cache_job s) =
        LOG DEBUG ''Image cache cleaning in progress. Returning... '' [] s \<and>
      passes_running (snd (spawn_clean_cache_job s)) = passes_running s) \<and>
   (cleaning s \<noteq> Some True \<longrightarrow>
      snd (spawn_clean_cache_job s) =
        s\<lparr>cleaning := Some True, passes_running := Suc (passes_running s)\<rparr>)"
  by (simp add: spawn_clean_cache_job_def LOG_def)

theorem trigger_returns_none_witness:
  "fst (spawn_clean_cache_job (fresh\<lparr>cleaning := Some True, passes_running := 1\<rparr>)) = PyNone \<and>
   passes_running (snd (spawn_clean_cache_job (fresh\<lparr>cleaning := Some True, passes_running := 1\<rparr>))) = 1 \<and>
   snd (spawn_clean_cache_job fresh) = fresh\<lparr>cleaning := Some True, passes_running := Suc 0\<rparr>"
  using trigger_returns_none [of "fresh\<lparr>cleaning := Some True, passes_running := 1\<rparr>"]
    trigger_returns_none [of fresh]
  by (simp add: fresh_def LOG_def)


section \<open>C10: what \<open>clone_image\<close> returns\<close>









end
